theory Spec2Isabelle
  imports Main
begin

section \<open>Python values used by the scraper\<close>

text \<open>
  The script \<^verbatim>\<open>Metacritic-games-scraper.py\<close> is embedded function by function.
  Python strings are modelled as \<^typ>\<open>string\<close>; the development assumes ASCII text,
  so that the Unicode classes behind \<^verbatim>\<open>str.strip\<close>, \<^verbatim>\<open>\s\<close>, \<^verbatim>\<open>\d\<close> and \<^verbatim>\<open>\w\<close> are
  their ASCII parts. Exceptions are values of \<open>py_error\<close>; a computation that may
  raise returns \<open>py_error + 'a\<close> with \<open>Inl\<close> for the raised exception.
\<close>

datatype py_error = ValueError | IndexError | KeyError | RequestException

definition isspace :: "char \<Rightarrow> bool" where
  \<comment> \<open>\<^verbatim>\<open>str.isspace\<close> on ASCII: TAB, LF, VT, FF, CR, FS, GS, RS, US and the blank.\<close>
  "isspace c \<longleftrightarrow> c \<in> set [CHR 0x09, CHR 0x0A, CHR 0x0B, CHR 0x0C, CHR 0x0D,
                         CHR 0x1C, CHR 0x1D, CHR 0x1E, CHR 0x1F, CHR '' '']"

definition isdigit :: "char \<Rightarrow> bool" where
  "isdigit c \<longleftrightarrow> c \<in> set ''0123456789''"

definition isword :: "char \<Rightarrow> bool" where
  \<comment> \<open>the class \<^verbatim>\<open>\w\<close> on ASCII\<close>
  "isword c \<longleftrightarrow> c \<in> set ''abcdefghijklmnopqrstuvwxyzABCDEFGHIJKLMNOPQRSTUVWXYZ0123456789_''"

definition lower :: "char \<Rightarrow> char" where
  "lower c = (case map_of (zip ''ABCDEFGHIJKLMNOPQRSTUVWXYZ'' ''abcdefghijklmnopqrstuvwxyz'') c of
                Some d \<Rightarrow> d | None \<Rightarrow> c)"

definition digit_val :: "char \<Rightarrow> nat" where
  "digit_val c = (case map_of (zip ''0123456789'' [0, 1, 2, 3, 4, 5, 6, 7, 8, 9]) c of
                    Some d \<Rightarrow> d | None \<Rightarrow> 0)"

definition digit_chr :: "nat \<Rightarrow> char" where
  "digit_chr d = ''0123456789'' ! d"

definition strip :: "string \<Rightarrow> string" where
  \<comment> \<open>\<^verbatim>\<open>s.strip()\<close>\<close>
  "strip s = rev (dropWhile isspace (rev (dropWhile isspace s)))"

fun split :: "char \<Rightarrow> string \<Rightarrow> string list" where
  \<comment> \<open>\<^verbatim>\<open>s.split(sep)\<close> for a one-character separator; \<^verbatim>\<open>"".split("|") == [""]\<close>\<close>
  "split sep [] = [[]]"
| "split sep (c # cs) =
     (if c = sep then [] # split sep cs
      else (case split sep cs of w # ws \<Rightarrow> (c # w) # ws | [] \<Rightarrow> [[c]]))"

fun join :: "string \<Rightarrow> string list \<Rightarrow> string" where
  \<comment> \<open>\<^verbatim>\<open>sep.join(xs)\<close>\<close>
  "join sep [] = []"
| "join sep [x] = x"
| "join sep (x # y # ys) = x @ sep @ join sep (y # ys)"

fun str_of_nat :: "nat \<Rightarrow> string" where
  \<comment> \<open>\<^verbatim>\<open>str(n)\<close> and \<^verbatim>\<open>"{}".format(n)\<close> for a non-negative integer\<close>
  "str_of_nat n = (if n < 10 then [digit_chr n] else str_of_nat (n div 10) @ [digit_chr (n mod 10)])"

declare str_of_nat.simps [simp del]

definition zfill :: "nat \<Rightarrow> string \<Rightarrow> string" where
  "zfill k s = replicate (k - length s) CHR ''0'' @ s"

section \<open>Parsed pages\<close>

text \<open>
  The markup parser is an external library. A tag is modelled by the text strings below
  it in document order, which is all the script reads from a tag; a listing is the
  \<^verbatim>\<open>a.c-finderProductCard_container\<close> element, given by what \<^verbatim>\<open>game.find\<close> returns for each
  of the four \<^verbatim>\<open>div\<close> classes the script looks up (\<open>None\<close> when there is no such element),
  and a parsed page is the list of listings that \<^verbatim>\<open>soup.find_all\<close> returns.
\<close>

type_synonym tag = "string list"

record listing =
  title_section :: "tag option"
  meta_info_section :: "tag option"
  description_section :: "tag option"
  metascore_section :: "tag option"

type_synonym soup = "listing list"

definition find_all :: "soup \<Rightarrow> listing list" where
  \<comment> \<open>\<^verbatim>\<open>soup.find_all("a", class_="c-finderProductCard_container")\<close>\<close>
  "find_all soup = soup"

definition all_strings :: "bool \<Rightarrow> tag \<Rightarrow> string list" where
  \<comment> \<open>with \<^verbatim>\<open>strip=True\<close> every string is stripped and the empty ones are skipped\<close>
  "all_strings strp t = (if strp then filter (\<lambda>s. s \<noteq> []) (map strip t) else t)"

definition get_text :: "string \<Rightarrow> bool \<Rightarrow> tag \<Rightarrow> string" where
  \<comment> \<open>\<^verbatim>\<open>tag.get_text(separator, strip)\<close>\<close>
  "get_text separator strp t = join separator (all_strings strp t)"

section \<open>The two regular expressions\<close>

text \<open>
  \<^verbatim>\<open>re.sub(r"^\d{1,3}(,\d{3})*\.", "", s)\<close>: the pattern is anchored at the start of the
  string, so at most the one match at position 0 is replaced. The matcher tries the
  greedy choices first and backtracks: three, two, one leading digits; one more
  \<^verbatim>\<open>,ddd\<close> group before the period.
\<close>

definition match_dot :: "string \<Rightarrow> string option" where
  "match_dot s = (case s of c # r \<Rightarrow> if c = CHR ''.'' then Some r else None | [] \<Rightarrow> None)"

fun match_groups :: "string \<Rightarrow> string option" where
  "match_groups (a # b # c # d # r) =
     (if a = CHR '','' \<and> isdigit b \<and> isdigit c \<and> isdigit d
      then (case match_groups r of Some r' \<Rightarrow> Some r' | None \<Rightarrow> match_dot (a # b # c # d # r))
      else match_dot (a # b # c # d # r))"
| "match_groups s = match_dot s"

definition match_digits :: "nat \<Rightarrow> string \<Rightarrow> string option" where
  "match_digits n s =
     (if n \<le> length s \<and> list_all isdigit (take n s) then match_groups (drop n s) else None)"

definition match_enum_prefix :: "string \<Rightarrow> string option" where
  "match_enum_prefix s =
     (case match_digits 3 s of Some r \<Rightarrow> Some r
      | None \<Rightarrow> (case match_digits 2 s of Some r \<Rightarrow> Some r | None \<Rightarrow> match_digits 1 s))"

definition re_sub_enum_prefix :: "string \<Rightarrow> string" where
  "re_sub_enum_prefix s = (case match_enum_prefix s of Some r \<Rightarrow> r | None \<Rightarrow> s)"

text \<open>
  \<^verbatim>\<open>re.search(r"Rated\s+(\w+)", text)\<close> followed by \<^verbatim>\<open>match.group(1)\<close>. The search takes the
  leftmost position where the pattern matches. After the literal, \<^verbatim>\<open>\s+\<close> must consume
  the whole run of whitespace (a shorter run leaves a whitespace character, which
  \<^verbatim>\<open>\w\<close> rejects) and the group is the longest run of word characters.
\<close>

definition match_rated :: "string \<Rightarrow> string option" where
  "match_rated s =
     (if take 5 s = ''Rated''
      then (let r = drop 5 s; w = takeWhile isword (dropWhile isspace r)
            in if takeWhile isspace r \<noteq> [] \<and> w \<noteq> [] then Some w else None)
      else None)"

fun re_search_rated :: "string \<Rightarrow> string option" where
  "re_search_rated [] = None"
| "re_search_rated (c # cs) =
     (case match_rated (c # cs) of Some g \<Rightarrow> Some g | None \<Rightarrow> re_search_rated cs)"

section \<open>Dates\<close>

text \<open>
  \<^verbatim>\<open>datetime.strptime(s, "%b %d, %Y")\<close> in the C locale. CPython compiles the format to
  the regular expression
  \<^verbatim>\<open>(?P<b>jan|...|dec)\s+(?P<d>3[0-1]|[1-2]\d|0[1-9]|[1-9]| [1-9]),\s+(?P<Y>\d\d\d\d)\<close>,
  matched case-insensitively at the start of the string; it raises \<^verbatim>\<open>ValueError\<close> when the
  pattern does not match, when text remains after the match, and when the three
  numbers are not a date of the calendar (years 1 to 9999).
\<close>

definition month_of :: "string \<Rightarrow> nat option" where
  "month_of s = map_of [(''jan'', 1), (''feb'', 2), (''mar'', 3), (''apr'', 4), (''may'', 5),
                        (''jun'', 6), (''jul'', 7), (''aug'', 8), (''sep'', 9), (''oct'', 10),
                        (''nov'', 11), (''dec'', 12)] (map lower s)"

definition match_spaces :: "string \<Rightarrow> string option" where
  \<comment> \<open>\<^verbatim>\<open>\s+\<close> before a token that starts with no whitespace\<close>
  "match_spaces s = (if takeWhile isspace s \<noteq> [] then Some (dropWhile isspace s) else None)"

definition day2 :: "char \<Rightarrow> char \<Rightarrow> bool" where
  \<comment> \<open>\<^verbatim>\<open>3[0-1]|[1-2]\d|0[1-9]\<close>\<close>
  "day2 a b \<longleftrightarrow> (a = CHR ''3'' \<and> b \<in> set ''01'') \<or> (a \<in> set ''12'' \<and> isdigit b)
                \<or> (a = CHR ''0'' \<and> b \<in> set ''123456789'')"

definition day1 :: "char \<Rightarrow> bool" where
  \<comment> \<open>\<^verbatim>\<open>[1-9]\<close>\<close>
  "day1 a \<longleftrightarrow> a \<in> set ''123456789''"

definition match_day_comma :: "string \<Rightarrow> (nat \<times> string) option" where
  \<comment> \<open>the day alternatives in the pattern's order, each followed by the literal comma\<close>
  "match_day_comma s =
     (case s of
        a # b # c # r \<Rightarrow>
          if day2 a b \<and> c = CHR '','' then Some (10 * digit_val a + digit_val b, r)
          else if day1 a \<and> b = CHR '','' then Some (digit_val a, c # r)
          else None
      | [a, b] \<Rightarrow> if day1 a \<and> b = CHR '','' then Some (digit_val a, []) else None
      | _ \<Rightarrow> None)"

definition match_year :: "string \<Rightarrow> nat option" where
  \<comment> \<open>\<^verbatim>\<open>\d\d\d\d\<close> and nothing after it\<close>
  "match_year s =
     (case s of
        [a, b, c, d] \<Rightarrow>
          if isdigit a \<and> isdigit b \<and> isdigit c \<and> isdigit d
          then Some (1000 * digit_val a + 100 * digit_val b + 10 * digit_val c + digit_val d)
          else None
      | _ \<Rightarrow> None)"

definition is_leap :: "nat \<Rightarrow> bool" where
  "is_leap y \<longleftrightarrow> y mod 4 = 0 \<and> (y mod 100 \<noteq> 0 \<or> y mod 400 = 0)"

definition days_in_month :: "nat \<Rightarrow> nat \<Rightarrow> nat" where
  "days_in_month y m =
     (if m = 2 then (if is_leap y then 29 else 28)
      else if m \<in> {4, 6, 9, 11} then 30 else 31)"

record date =
  year :: nat
  month :: nat
  day :: nat

definition strptime :: "string \<Rightarrow> py_error + date" where
  "strptime s =
     (case month_of (take 3 s) of
        None \<Rightarrow> Inl ValueError
      | Some m \<Rightarrow>
          (case match_spaces (drop 3 s) of
             None \<Rightarrow> Inl ValueError
           | Some s1 \<Rightarrow>
               (case match_day_comma s1 of
                  None \<Rightarrow> Inl ValueError
                | Some (d, s2) \<Rightarrow>
                    (case match_spaces s2 of
                       None \<Rightarrow> Inl ValueError
                     | Some s3 \<Rightarrow>
                         (case match_year s3 of
                            None \<Rightarrow> Inl ValueError
                          | Some y \<Rightarrow>
                              if 1 \<le> y \<and> d \<le> days_in_month y m
                              then Inr \<lparr>year = y, month = m, day = d\<rparr>
                              else Inl ValueError)))))"

definition strftime :: "date \<Rightarrow> string" where
  \<comment> \<open>\<^verbatim>\<open>d.strftime("%Y-%m-%d")\<close>; the year is written with four digits\<close>
  "strftime d = zfill 4 (str_of_nat (year d)) @ ''-'' @ zfill 2 (str_of_nat (month d))
                @ ''-'' @ zfill 2 (str_of_nat (day d))"

section \<open>extract\_game\_data\<close>

record game =
  title :: string
  release_date :: string
  rating :: string
  description :: string
  metascore :: string

definition extract_title :: "tag option \<Rightarrow> string" where
  "extract_title sec =
     (case sec of
        Some t \<Rightarrow> strip (re_sub_enum_prefix (get_text [] True t))
      | None \<Rightarrow> ''Title not found'')"

definition first_item :: "'a list \<Rightarrow> py_error + 'a" where
  \<comment> \<open>\<^verbatim>\<open>xs[0]\<close>\<close>
  "first_item xs = (case xs of [] \<Rightarrow> Inl IndexError | x # _ \<Rightarrow> Inr x)"

definition parse_release_date :: "string list \<Rightarrow> py_error + string" where
  \<comment> \<open>the body of the \<^verbatim>\<open>try\<close> block\<close>
  "parse_release_date meta_info =
     (case first_item (map strip (filter (\<lambda>info. CHR '','' \<in> set info) meta_info)) of
        Inl e \<Rightarrow> Inl e
      | Inr release_date_str \<Rightarrow>
          (case strptime release_date_str of
             Inl e \<Rightarrow> Inl e
           | Inr d \<Rightarrow> Inr (strftime d)))"

definition extract_release_date :: "tag \<Rightarrow> py_error + string" where
  \<comment> \<open>\<^verbatim>\<open>try: ... except (ValueError, IndexError): pass\<close>; any other exception propagates\<close>
  "extract_release_date t =
     (case parse_release_date (split CHR ''|'' (get_text ''|'' True t)) of
        Inr rd \<Rightarrow> Inr rd
      | Inl e \<Rightarrow> if e = ValueError \<or> e = IndexError then Inr ''Unknown'' else Inl e)"

definition extract_rating :: "tag \<Rightarrow> string" where
  "extract_rating t =
     (case re_search_rated (get_text [] False t) of
        Some g \<Rightarrow> g
      | None \<Rightarrow> ''Rating not found'')"

definition extract_meta :: "tag option \<Rightarrow> py_error + string \<times> string" where
  \<comment> \<open>release date and rating, both initialised to their sentinels\<close>
  "extract_meta sec =
     (case sec of
        None \<Rightarrow> Inr (''Unknown'', ''Rating not found'')
      | Some t \<Rightarrow>
          (case extract_release_date t of
             Inl e \<Rightarrow> Inl e
           | Inr rd \<Rightarrow> Inr (rd, extract_rating t)))"

definition extract_description :: "tag option \<Rightarrow> string" where
  "extract_description sec =
     (case sec of
        Some t \<Rightarrow> get_text [] True t
      | None \<Rightarrow> ''Description not found'')"

definition extract_metascore :: "tag option \<Rightarrow> string" where
  "extract_metascore sec =
     (case sec of
        Some t \<Rightarrow> get_text [] True t
      | None \<Rightarrow> ''Metascore not available'')"

definition extract_game :: "listing \<Rightarrow> py_error + game" where
  \<comment> \<open>one iteration of the loop over \<^verbatim>\<open>game_listings\<close>\<close>
  "extract_game g =
     (case extract_meta (meta_info_section g) of
        Inl e \<Rightarrow> Inl e
      | Inr (rd, rt) \<Rightarrow>
          Inr \<lparr>title = extract_title (title_section g), release_date = rd, rating = rt,
               description = extract_description (description_section g),
               metascore = extract_metascore (metascore_section g)\<rparr>)"

fun extract_loop :: "listing list \<Rightarrow> game list \<Rightarrow> py_error + game list" where
  "extract_loop [] games_data = Inr games_data"
| "extract_loop (g # gs) games_data =
     (case extract_game g of
        Inl e \<Rightarrow> Inl e
      | Inr r \<Rightarrow> extract_loop gs (games_data @ [r]))"

definition extract_game_data :: "soup \<Rightarrow> py_error + game list" where
  "extract_game_data soup = extract_loop (find_all soup) []"

section \<open>Fetching pages\<close>







section \<open>The pagination loops\<close>







section \<open>merge\_platform\_dfs\<close>

text \<open>
  A \<^verbatim>\<open>DataFrame\<close> is its column labels and its rows; the index is the default one,
  \<open>0..<length rows\<close>. \<^verbatim>\<open>pd.DataFrame(data)\<close> of a list of dictionaries takes its columns
  from the dictionaries, so the frame of the empty list has no column at all.
  A row that \<^verbatim>\<open>iterrows\<close> yields carries every column of its frame, and every dictionary
  that \<open>extract_game_data\<close> builds has the five keys, so reading a field of a platform row
  cannot fail. Reading a column of the main frame fails with \<^verbatim>\<open>KeyError\<close> when the
  frame has no such column.
\<close>

record 'r dataframe =
  columns :: "string list"
  rows :: "'r list"

definition pd_DataFrame :: "game list \<Rightarrow> game dataframe" where
  "pd_DataFrame data =
     \<lparr>columns = (if data = [] then []
                 else [''title'', ''release_date'', ''rating'', ''description'', ''metascore'']),
      rows = data\<rparr>"

record merged_game = game +
  platforms :: "string list"
  platform_scores :: "string list"

definition new_row :: "game \<Rightarrow> merged_game" where
  "new_row g = \<lparr>title = title g, release_date = release_date g, rating = rating g,
               description = description g, metascore = metascore g,
               platforms = [], platform_scores = []\<rparr>"

definition add_list_columns :: "game dataframe \<Rightarrow> merged_game dataframe" where
  \<comment> \<open>the two assignments of a fresh empty list per row\<close>
  "add_list_columns main_df =
     \<lparr>columns = columns main_df @ [''platforms'', ''platform_scores''],
      rows = map new_row (rows main_df)\<rparr>"

definition matched_idx :: "merged_game dataframe \<Rightarrow> string \<Rightarrow> py_error + nat list" where
  \<comment> \<open>\<^verbatim>\<open>main_df[(main_df["title"] == platform_row["title"])].index\<close>\<close>
  "matched_idx main_df t =
     (if ''title'' \<in> set (columns main_df)
      then Inr (filter (\<lambda>i. title (rows main_df ! i) = t) [0..<length (rows main_df)])
      else Inl KeyError)"

fun append_matches :: "nat list \<Rightarrow> string \<Rightarrow> game \<Rightarrow> merged_game list \<Rightarrow> py_error + merged_game list" where
  \<comment> \<open>\<^verbatim>\<open>for i in matched_idx\<close>; \<^verbatim>\<open>.at\<close> raises \<^verbatim>\<open>KeyError\<close> for a label that is not in the index\<close>
  "append_matches [] platform platform_row rs = Inr rs"
| "append_matches (i # idx) platform platform_row rs =
     (if length rs \<le> i then Inl KeyError
      else if platform \<notin> set (platforms (rs ! i))
      then append_matches idx platform platform_row
             (rs[i := (rs ! i)\<lparr>platforms := platforms (rs ! i) @ [platform],
                               platform_scores := platform_scores (rs ! i)
                                                  @ [metascore platform_row]\<rparr>])
      else append_matches idx platform platform_row rs)"

fun merge_rows :: "string \<Rightarrow> game list \<Rightarrow> merged_game dataframe \<Rightarrow> py_error + merged_game dataframe" where
  \<comment> \<open>\<^verbatim>\<open>for idx, platform_row in platform_df.iterrows()\<close>\<close>
  "merge_rows platform [] main_df = Inr main_df"
| "merge_rows platform (platform_row # rest) main_df =
     (case matched_idx main_df (title platform_row) of
        Inl e \<Rightarrow> Inl e
      | Inr idx \<Rightarrow>
          (case append_matches idx platform platform_row (rows main_df) of
             Inl e \<Rightarrow> Inl e
           | Inr rs \<Rightarrow> merge_rows platform rest (main_df\<lparr>rows := rs\<rparr>)))"

fun merge_loop ::
  "(string \<times> game dataframe) list \<Rightarrow> merged_game dataframe \<Rightarrow> py_error + merged_game dataframe" where
  \<comment> \<open>\<^verbatim>\<open>for platform, platform_df in platform_dfs.items()\<close>, a dictionary in insertion order\<close>
  "merge_loop [] main_df = Inr main_df"
| "merge_loop ((platform, platform_df) # rest) main_df =
     (case merge_rows platform (rows platform_df) main_df of
        Inl e \<Rightarrow> Inl e
      | Inr main_df' \<Rightarrow> merge_loop rest main_df')"

definition merge_platform_dfs ::
  "game dataframe \<Rightarrow> (string \<times> game dataframe) list \<Rightarrow> py_error + merged_game dataframe" where
  "merge_platform_dfs main_df platform_dfs = merge_loop platform_dfs (add_list_columns main_df)"

definition merge_scraped ::
  "game list \<Rightarrow> (string \<times> game list) list \<Rightarrow> py_error + merged_game dataframe" where
  \<comment> \<open>lines 197, 302 and 353: the frames are built from the scraped lists and merged\<close>
  "merge_scraped all_games_data platform_data =
     merge_platform_dfs (pd_DataFrame all_games_data)
       (map (\<lambda>(platform, data). (platform, pd_DataFrame data)) platform_data)"

section \<open>Notions used to state the properties\<close>




text \<open>
  The merge seen from one row of the main frame: \<open>visit platform platform_row e\<close> is what
  the body of the innermost loop does to the row \<open>e\<close> when \<open>platform_row\<close> is processed,
  and \<open>visit_all\<close> runs it over every row of every platform frame in the order of the loops.
\<close>

definition visit :: "string \<Rightarrow> game \<Rightarrow> merged_game \<Rightarrow> merged_game" where
  "visit platform platform_row e =
     (if title e = title platform_row \<and> platform \<notin> set (platforms e)
      then e\<lparr>platforms := platforms e @ [platform],
             platform_scores := platform_scores e @ [metascore platform_row]\<rparr>
      else e)"

definition visit_all :: "(string \<times> game dataframe) list \<Rightarrow> merged_game \<Rightarrow> merged_game" where
  "visit_all dfs e = fold (\<lambda>(p, df) e. fold (visit p) (rows df) e) dfs e"

definition pairs :: "merged_game \<Rightarrow> (string \<times> string) list" where
  "pairs e = zip (platforms e) (platform_scores e)"

definition parallel :: "merged_game \<Rightarrow> bool" where
  "parallel e \<longleftrightarrow> length (platforms e) = length (platform_scores e)"

definition first_match :: "string \<Rightarrow> game list \<Rightarrow> game option" where
  \<comment> \<open>the first record of a platform's list with the given title\<close>
  "first_match t data = find (\<lambda>r. title r = t) data"

definition frames :: "(string \<times> game list) list \<Rightarrow> (string \<times> game dataframe) list" where
  "frames platform_data = map (\<lambda>(platform, data). (platform, pd_DataFrame data)) platform_data"

text \<open>
  The enumeration prefix in the words of the specification: one to three digits, then any
  number of groups of a comma and three digits, then a period.
\<close>

fun is_groups :: "string \<Rightarrow> bool" where
  "is_groups [] = True"
| "is_groups (a # b # c # d # r) =
     (a = CHR '','' \<and> isdigit b \<and> isdigit c \<and> isdigit d \<and> is_groups r)"
| "is_groups _ = False"

definition enum_prefix :: "string \<Rightarrow> bool" where
  "enum_prefix p \<longleftrightarrow>
     (\<exists>n\<in>{1, 2, 3}. n < length p \<and> list_all isdigit (take n p)
        \<and> is_groups (butlast (drop n p)) \<and> last p = CHR ''.'')"

section \<open>Example inputs\<close>

definition listing_a :: listing where
  "listing_a = \<lparr>title_section = Some [''1.'', ''Alpha''],
                 meta_info_section = Some [''Jan 5, 2020'', '' | '', ''Rated M''],
                 description_section = Some [''First game''],
                 metascore_section = Some [''91'']\<rparr>"

definition listing_b :: listing where
  "listing_b = \<lparr>title_section = None, meta_info_section = None,
                 description_section = None, metascore_section = None\<rparr>"

definition game_a :: game where
  "game_a = \<lparr>title = ''Alpha'', release_date = ''2020-01-05'', rating = ''M'',
              description = ''First game'', metascore = ''91''\<rparr>"

definition game_b :: game where
  "game_b = \<lparr>title = ''Title not found'', release_date = ''Unknown'',
              rating = ''Rating not found'', description = ''Description not found'',
              metascore = ''Metascore not available''\<rparr>"





definition game_x :: game where
  "game_x = \<lparr>title = ''Game X'', release_date = ''2021-03-04'', rating = ''T'',
              description = ''An example'', metascore = ''80''\<rparr>"

definition game_x_lower :: game where
  "game_x_lower = game_x\<lparr>title := ''game x''\<rparr>"

definition game_x_85 :: game where
  "game_x_85 = game_x\<lparr>metascore := ''85''\<rparr>"

definition game_x_90 :: game where
  "game_x_90 = game_x\<lparr>metascore := ''90''\<rparr>"

section \<open>Properties of the extraction\<close>

lemma strptime_error: "strptime s = Inl e \<Longrightarrow> e = ValueError"
  by (auto simp: strptime_def split: option.splits prod.splits if_splits)

lemma parse_release_date_error:
  "parse_release_date meta_info = Inl e \<Longrightarrow> e = ValueError \<or> e = IndexError"
  by (auto simp: parse_release_date_def first_item_def split: sum.splits list.splits
           dest: strptime_error)

lemma extract_release_date_returns: "\<exists>rd. extract_release_date t = Inr rd"
  by (auto simp: extract_release_date_def split: sum.splits dest: parse_release_date_error)

lemma extract_meta_returns:
  "\<exists>rd. extract_meta sec = Inr (rd, case sec of None \<Rightarrow> ''Rating not found'' | Some t \<Rightarrow> extract_rating t)"
proof (cases sec)
  case None
  then show ?thesis by (simp add: extract_meta_def)
next
  case (Some t)
  obtain rd where "extract_release_date t = Inr rd"
    using extract_release_date_returns by blast
  with Some show ?thesis by (simp add: extract_meta_def)
qed

lemma extract_game_returns: "\<exists>r. extract_game g = Inr r"
proof -
  obtain rd rt where "extract_meta (meta_info_section g) = Inr (rd, rt)"
    using extract_meta_returns by blast
  then show ?thesis
    by (simp add: extract_game_def)
qed

lemma extract_game_sentinels:
  assumes "extract_game g = Inr r"
  shows "(title_section g = None \<longrightarrow> title r = ''Title not found'')
       \<and> (meta_info_section g = None \<longrightarrow>
            release_date r = ''Unknown'' \<and> rating r = ''Rating not found'')
       \<and> (description_section g = None \<longrightarrow> description r = ''Description not found'')
       \<and> (metascore_section g = None \<longrightarrow> metascore r = ''Metascore not available'')"
  using assms
  by (auto simp: extract_game_def extract_title_def extract_meta_def extract_description_def
                 extract_metascore_def split: sum.splits prod.splits)

lemma extract_loop_returns:
  "\<exists>rs. extract_loop gs acc = Inr (acc @ rs) \<and> list_all2 (\<lambda>g r. extract_game g = Inr r) gs rs"
proof (induction gs arbitrary: acc)
  case Nil
  then show ?case by simp
next
  case (Cons g gs)
  obtain r where r: "extract_game g = Inr r"
    using extract_game_returns by blast
  obtain rs where "extract_loop gs (acc @ [r]) = Inr ((acc @ [r]) @ rs)"
    and "list_all2 (\<lambda>g r. extract_game g = Inr r) gs rs"
    using Cons.IH by blast
  with r have "extract_loop (g # gs) acc = Inr (acc @ r # rs)
      \<and> list_all2 (\<lambda>g r. extract_game g = Inr r) (g # gs) (r # rs)"
    by simp
  then show ?case by blast
qed


text \<open>
  Claim C3. \<open>extract_game_data\<close> raises nothing and returns one record per listing of the
  page, in the order of the listings: the record at position \<open>i\<close> is the one extracted
  from listing \<open>i\<close>. A record is a value of the type \<open>game\<close>, whose five fields are
  strings, so no field is missing or null; the field of a sub-fragment that the listing
  does not have is the documented sentinel.
\<close>

theorem extract_game_data_one_record_per_listing:
  "\<exists>games_data. extract_game_data soup = Inr games_data
     \<and> length games_data = length (find_all soup)
     \<and> (\<forall>i<length (find_all soup).
          extract_game (find_all soup ! i) = Inr (games_data ! i)
          \<and> (title_section (find_all soup ! i) = None \<longrightarrow>
               title (games_data ! i) = ''Title not found'')
          \<and> (meta_info_section (find_all soup ! i) = None \<longrightarrow>
               release_date (games_data ! i) = ''Unknown''
               \<and> rating (games_data ! i) = ''Rating not found'')
          \<and> (description_section (find_all soup ! i) = None \<longrightarrow>
               description (games_data ! i) = ''Description not found'')
          \<and> (metascore_section (find_all soup ! i) = None \<longrightarrow>
               metascore (games_data ! i) = ''Metascore not available''))"
proof -
  obtain rs where run: "extract_loop (find_all soup) [] = Inr ([] @ rs)"
    and rel: "list_all2 (\<lambda>g r. extract_game g = Inr r) (find_all soup) rs"
    using extract_loop_returns by blast
  from rel have len: "length rs = length (find_all soup)"
    by (simp add: list_all2_lengthD)
  have each: "extract_game (find_all soup ! i) = Inr (rs ! i)" if "i < length (find_all soup)" for i
    using rel that by (simp add: list_all2_conv_all_nth)
  show ?thesis
  proof (intro exI [of _ rs] conjI allI impI)
    show "extract_game_data soup = Inr rs"
      using run by (simp add: extract_game_data_def)
    show "length rs = length (find_all soup)"
      by (rule len)
  next
    fix i assume "i < length (find_all soup)"
    then have e: "extract_game (find_all soup ! i) = Inr (rs ! i)"
      by (rule each)
    then show "extract_game (find_all soup ! i) = Inr (rs ! i)" .
    from extract_game_sentinels [OF e]
    show "title_section (find_all soup ! i) = None \<Longrightarrow> title (rs ! i) = ''Title not found''"
      and "meta_info_section (find_all soup ! i) = None \<Longrightarrow> release_date (rs ! i) = ''Unknown''"
      and "meta_info_section (find_all soup ! i) = None \<Longrightarrow> rating (rs ! i) = ''Rating not found''"
      and "description_section (find_all soup ! i) = None \<Longrightarrow>
             description (rs ! i) = ''Description not found''"
      and "metascore_section (find_all soup ! i) = None \<Longrightarrow>
             metascore (rs ! i) = ''Metascore not available''"
      by simp_all
  qed
qed

theorem extract_game_data_one_record_per_listing_witness:
  "\<exists>games_data. extract_game_data [listing_a, listing_b] = Inr games_data
     \<and> length games_data = 2 \<and> games_data ! 0 = game_a \<and> games_data ! 1 = game_b"
proof -
  have fa: "find_all [listing_a, listing_b] = [listing_a, listing_b]"
    by (simp add: find_all_def)
  from extract_game_data_one_record_per_listing [of "[listing_a, listing_b]"]
  obtain games_data where run: "extract_game_data [listing_a, listing_b] = Inr games_data"
    and len: "length games_data = 2"
    and each: "\<And>i. i < 2 \<Longrightarrow>
          extract_game ([listing_a, listing_b] ! i) = Inr (games_data ! i)
          \<and> (title_section ([listing_a, listing_b] ! i) = None \<longrightarrow>
               title (games_data ! i) = ''Title not found'')
          \<and> (meta_info_section ([listing_a, listing_b] ! i) = None \<longrightarrow>
               release_date (games_data ! i) = ''Unknown''
               \<and> rating (games_data ! i) = ''Rating not found'')
          \<and> (description_section ([listing_a, listing_b] ! i) = None \<longrightarrow>
               description (games_data ! i) = ''Description not found'')
          \<and> (metascore_section ([listing_a, listing_b] ! i) = None \<longrightarrow>
               metascore (games_data ! i) = ''Metascore not available'')"
    unfolding fa by auto
  from each [of 0] have r0: "extract_game listing_a = Inr (games_data ! 0)"
    by simp
  from each [of 1] have t1: "title (games_data ! 1) = ''Title not found''"
    and m1: "release_date (games_data ! 1) = ''Unknown''"
      "rating (games_data ! 1) = ''Rating not found''"
    and d1: "description (games_data ! 1) = ''Description not found''"
    and s1: "metascore (games_data ! 1) = ''Metascore not available''"
    by (simp_all add: listing_b_def)
  have "extract_game listing_a = Inr game_a"
    by code_simp
  with r0 have "games_data ! 0 = game_a"
    by simp
  moreover from t1 m1 d1 s1 have "games_data ! 1 = game_b"
    by (simp add: game_b_def)
  ultimately show ?thesis
    using run len by blast
qed

lemma match_groups_no_comma: "a \<noteq> CHR '','' \<Longrightarrow> match_groups (a # s) = match_dot (a # s)"
  by (cases "a # s" rule: match_groups.cases) auto

lemma match_groups_dot: "match_groups (CHR ''.'' # rest) = Some rest"
  by (simp add: match_groups_no_comma match_dot_def)

lemma match_groups_complete:
  "is_groups g \<Longrightarrow> match_groups (g @ CHR ''.'' # rest) = Some rest"
  by (induction g rule: is_groups.induct) (simp_all add: match_groups_dot)

lemma match_groups_sound:
  "match_groups s = Some rest \<Longrightarrow> \<exists>g. is_groups g \<and> s = g @ CHR ''.'' # rest"
proof (induction s rule: match_groups.induct)
  case (1 a b c d r)
  show ?case
  proof (cases "a = CHR '','' \<and> isdigit b \<and> isdigit c \<and> isdigit d \<and> match_groups r \<noteq> None")
    case True
    with 1 obtain g where "is_groups g" "r = g @ CHR ''.'' # rest"
      by auto
    with True have "is_groups (a # b # c # d # g) \<and> a # b # c # d # r = (a # b # c # d # g) @ CHR ''.'' # rest"
      by simp
    then show ?thesis by blast
  next
    case False
    with 1(2) have "match_dot (a # b # c # d # r) = Some rest"
      by (auto split: option.splits if_splits)
    then have "a # b # c # d # r = [] @ CHR ''.'' # rest"
      by (simp add: match_dot_def split: if_splits)
    then show ?thesis
      using is_groups.simps(1) by blast
  qed
qed (auto simp: match_dot_def split: if_splits list.splits intro: exI [of _ "[]"])

lemma not_digit: "\<not> isdigit CHR '',''" "\<not> isdigit CHR ''.''"
  by (simp_all add: isdigit_def)

lemma groups_then_dot_head:
  "is_groups g \<Longrightarrow> \<exists>x s. g @ CHR ''.'' # rest = x # s \<and> \<not> isdigit x"
  by (cases g rule: is_groups.cases) (auto simp: not_digit)


lemma match_digits_exact:
  assumes "n \<in> {1, 2, 3}" "length ds = n" "list_all isdigit ds" "is_groups g"
  shows "match_digits n (ds @ g @ CHR ''.'' # rest) = Some rest"
  using assms by (simp add: match_digits_def match_groups_complete)

lemma match_digits_too_many:
  assumes "length ds < m" "is_groups g"
  shows "match_digits m (ds @ g @ CHR ''.'' # rest) = None"
proof -
  obtain x s where xs: "g @ CHR ''.'' # rest = x # s" and nd: "\<not> isdigit x"
    using groups_then_dot_head [OF assms(2)] by blast
  have mem: "x \<in> set (take m (ds @ x # s))"
    using assms(1) by (simp add: take_Cons' in_set_conv_nth)
  have nl: "\<not> list_all isdigit (take m (ds @ g @ CHR ''.'' # rest))"
    unfolding xs list_all_iff using mem nd by blast
  show ?thesis
    unfolding match_digits_def using nl by (simp only: simp_thms if_False)
qed


lemma enum_prefix_decompose:
  "enum_prefix p \<longleftrightarrow>
     (\<exists>ds g. p = ds @ g @ ''.'' \<and> length ds \<in> {1, 2, 3} \<and> list_all isdigit ds \<and> is_groups g)"
proof
  assume "enum_prefix p"
  then obtain n where n: "n \<in> {1, 2, 3}" "n < length p" "list_all isdigit (take n p)"
    "is_groups (butlast (drop n p))" "last p = CHR ''.''"
    unfolding enum_prefix_def by blast
  from n(2) have ne: "drop n p \<noteq> []" by simp
  with n(5) have "last (drop n p) = CHR ''.''" by simp
  with ne have "drop n p = butlast (drop n p) @ ''.''"
    by (metis append_butlast_last_id)
  then have "p = take n p @ butlast (drop n p) @ ''.''"
    by (metis append_take_drop_id)
  moreover from n(1,2) have "length (take n p) \<in> {1, 2, 3}" by auto
  ultimately show "\<exists>ds g. p = ds @ g @ ''.'' \<and> length ds \<in> {1, 2, 3} \<and> list_all isdigit ds \<and> is_groups g"
    using n(3,4) by blast
next
  assume "\<exists>ds g. p = ds @ g @ ''.'' \<and> length ds \<in> {1, 2, 3} \<and> list_all isdigit ds \<and> is_groups g"
  then obtain ds g where p: "p = ds @ g @ ''.''" and l: "length ds \<in> {1, 2, 3}"
    and d: "list_all isdigit ds" and g: "is_groups g"
    by blast
  have "length ds < length p \<and> list_all isdigit (take (length ds) p)
      \<and> is_groups (butlast (drop (length ds) p)) \<and> last p = CHR ''.''"
    using d g by (simp add: p butlast_append)
  with l show "enum_prefix p"
    unfolding enum_prefix_def by blast
qed

lemma match_enum_prefix_complete:
  assumes "enum_prefix p"
  shows "match_enum_prefix (p @ rest) = Some rest"
proof -
  from assms obtain ds g where p: "p = ds @ g @ ''.''" and l: "length ds \<in> {1, 2, 3}"
    and d: "list_all isdigit ds" and g: "is_groups g"
    unfolding enum_prefix_decompose by blast
  have eq: "p @ rest = ds @ g @ CHR ''.'' # rest"
    by (simp add: p)
  from l consider "length ds = 1" | "length ds = 2" | "length ds = 3"
    by auto
  then show ?thesis
  proof cases
    case 1
    then show ?thesis
      unfolding eq match_enum_prefix_def
      using match_digits_too_many [of ds 3 g rest] match_digits_too_many [of ds 2 g rest]
        match_digits_exact [of 1 ds g rest] d g
      by simp
  next
    case 2
    then show ?thesis
      unfolding eq match_enum_prefix_def
      using match_digits_too_many [of ds 3 g rest] match_digits_exact [of 2 ds g rest] d g
      by simp
  next
    case 3
    then show ?thesis
      unfolding eq match_enum_prefix_def
      using match_digits_exact [of 3 ds g rest] d g
      by simp
  qed
qed

lemma match_digits_sound:
  assumes "match_digits n s = Some rest" "n \<in> {1, 2, 3}"
  shows "\<exists>p. enum_prefix p \<and> s = p @ rest"
proof -
  from assms(1) have n: "n \<le> length s" and d: "list_all isdigit (take n s)"
    and m: "match_groups (drop n s) = Some rest"
    by (auto simp: match_digits_def split: if_splits)
  from match_groups_sound [OF m] obtain g where g: "is_groups g"
    and dr: "drop n s = g @ CHR ''.'' # rest"
    by blast
  have "s = take n s @ drop n s"
    by simp
  then have s: "s = (take n s @ g @ ''.'') @ rest"
    unfolding dr by simp
  have "length (take n s) \<in> {1, 2, 3}"
    using n assms(2) by auto
  with d g have "enum_prefix (take n s @ g @ ''.'')"
    unfolding enum_prefix_decompose by blast
  with s show ?thesis by blast
qed

lemma match_enum_prefix_sound:
  assumes "match_enum_prefix s = Some rest"
  shows "\<exists>p. enum_prefix p \<and> s = p @ rest"
proof -
  from assms have "match_digits 3 s = Some rest \<or> match_digits 2 s = Some rest
      \<or> match_digits 1 s = Some rest"
    by (auto simp: match_enum_prefix_def split: option.splits)
  then show ?thesis
    using match_digits_sound [of 3 s rest] match_digits_sound [of 2 s rest]
      match_digits_sound [of 1 s rest]
    by auto
qed

lemma enum_prefix_head: "enum_prefix p \<Longrightarrow> \<exists>c cs. p = c # cs \<and> isdigit c"
proof -
  assume "enum_prefix p"
  then obtain ds g where p: "p = ds @ g @ ''.''" and l: "length ds \<in> {1, 2, 3}"
    and d: "list_all isdigit ds"
    unfolding enum_prefix_decompose by blast
  from l obtain c cs where "ds = c # cs"
    by (cases ds) auto
  with p d show ?thesis by simp
qed

text \<open>
  Claim C4. The title is the text of the title sub-fragment with the leading enumeration
  prefix removed and the whitespace around the rest trimmed. The substitution removes
  every prefix of the form the specification describes and nothing else: a text that
  starts with such a prefix loses exactly the prefix, and a text of which no prefix has
  that form is returned as it is. So \<^verbatim>\<open>1,234. Super Game\<close> gives \<^verbatim>\<open>Super Game\<close>,
  \<^verbatim>\<open>Super Game\<close> is unchanged, and a listing without the title sub-fragment gets the
  sentinel.
\<close>

theorem title_prefix_stripped:
  "(enum_prefix p \<longrightarrow> re_sub_enum_prefix (p @ rest) = rest)
   \<and> ((\<forall>p r. s = p @ r \<longrightarrow> \<not> enum_prefix p) \<longrightarrow> re_sub_enum_prefix s = s)
   \<and> extract_title (Some t) = strip (re_sub_enum_prefix (get_text [] True t))
   \<and> extract_title (Some [''1,234. Super Game'']) = ''Super Game''
   \<and> extract_title (Some [''Super Game'']) = ''Super Game''
   \<and> extract_title None = ''Title not found''"
proof (intro conjI impI)
  assume "enum_prefix p"
  then show "re_sub_enum_prefix (p @ rest) = rest"
    by (simp add: re_sub_enum_prefix_def match_enum_prefix_complete)
next
  assume no: "\<forall>p r. s = p @ r \<longrightarrow> \<not> enum_prefix p"
  have "match_enum_prefix s = None"
  proof (cases "match_enum_prefix s")
    case (Some r)
    from match_enum_prefix_sound [OF this] no show ?thesis by blast
  qed simp
  then show "re_sub_enum_prefix s = s"
    by (simp add: re_sub_enum_prefix_def)
next
  show "extract_title (Some t) = strip (re_sub_enum_prefix (get_text [] True t))"
    by (simp add: extract_title_def)
  show "extract_title (Some [''1,234. Super Game'']) = ''Super Game''"
    by code_simp
  show "extract_title (Some [''Super Game'']) = ''Super Game''"
    by code_simp
  show "extract_title None = ''Title not found''"
    by (simp add: extract_title_def)
qed

theorem title_prefix_stripped_witness:
  "enum_prefix ''1,234.'' \<and> re_sub_enum_prefix ''1,234. Super Game'' = '' Super Game''
   \<and> re_sub_enum_prefix ''Super Game'' = ''Super Game''"
proof -
  have e: "enum_prefix ''1,234.''"
    by code_simp
  have n: "\<forall>p r. ''Super Game'' = p @ r \<longrightarrow> \<not> enum_prefix p"
  proof (intro allI impI notI)
    fix p r assume eq: "''Super Game'' = p @ r" and "enum_prefix p"
    then obtain c cs where "p = c # cs" "isdigit c"
      using enum_prefix_head by blast
    with eq show False
      by (auto simp: isdigit_def)
  qed
  from title_prefix_stripped [of "''1,234.''" "'' Super Game''" "''Super Game''"] e n
  show ?thesis
    by simp
qed
















lemma word_not_space: "isword c \<Longrightarrow> \<not> isspace c"
  by (auto simp: isword_def isspace_def)

lemma match_rated_sound:
  assumes "match_rated s = Some g"
  shows "\<exists>ws post. s = ''Rated'' @ ws @ g @ post \<and> ws \<noteq> [] \<and> list_all isspace ws
           \<and> g \<noteq> [] \<and> list_all isword g \<and> (post = [] \<or> \<not> isword (hd post))"
proof -
  let ?r = "drop 5 s"
  let ?ws = "takeWhile isspace ?r"
  let ?r2 = "dropWhile isspace ?r"
  let ?post = "dropWhile isword ?r2"
  from assms have t: "take 5 s = ''Rated''" and ws: "?ws \<noteq> []"
    and g: "g = takeWhile isword ?r2" and gne: "g \<noteq> []"
    by (auto simp: match_rated_def Let_def split: if_splits)
  have "s = take 5 s @ ?ws @ g @ ?post"
    unfolding g by simp
  then have "s = ''Rated'' @ ?ws @ g @ ?post"
    unfolding t .
  moreover have "list_all isspace ?ws"
    by (auto simp: list_all_iff dest: set_takeWhileD)
  moreover have "list_all isword g"
    unfolding g by (auto simp: list_all_iff dest: set_takeWhileD)
  moreover have "?post = [] \<or> \<not> isword (hd ?post)"
    using hd_dropWhile [of isword ?r2] by blast
  ultimately show ?thesis
    using ws gne by blast
qed

lemma re_search_rated_sound:
  "re_search_rated str = Some g \<Longrightarrow>
   \<exists>pre ws post. str = pre @ ''Rated'' @ ws @ g @ post \<and> ws \<noteq> [] \<and> list_all isspace ws
           \<and> g \<noteq> [] \<and> list_all isword g \<and> (post = [] \<or> \<not> isword (hd post))"
proof (induction str)
  case Nil
  then show ?case by simp
next
  case (Cons c cs)
  show ?case
  proof (cases "match_rated (c # cs)")
    case (Some g')
    with Cons.prems have "match_rated (c # cs) = Some g"
      by simp
    from match_rated_sound [OF this] obtain ws post where
      "c # cs = [] @ ''Rated'' @ ws @ g @ post \<and> ws \<noteq> [] \<and> list_all isspace ws
           \<and> g \<noteq> [] \<and> list_all isword g \<and> (post = [] \<or> \<not> isword (hd post))"
      by auto
    then show ?thesis by blast
  next
    case None
    with Cons.prems have "re_search_rated cs = Some g"
      by simp
    from Cons.IH [OF this] obtain pre ws post where
      "cs = pre @ ''Rated'' @ ws @ g @ post" and rest: "ws \<noteq> [] \<and> list_all isspace ws
           \<and> g \<noteq> [] \<and> list_all isword g \<and> (post = [] \<or> \<not> isword (hd post))"
      by blast
    then have "c # cs = (c # pre) @ ''Rated'' @ ws @ g @ post"
      by simp
    with rest show ?thesis by blast
  qed
qed

lemma match_rated_complete:
  assumes "ws \<noteq> []" "list_all isspace ws" "g \<noteq> []" "list_all isword g"
  shows "match_rated (''Rated'' @ ws @ g @ post) \<noteq> None"
proof -
  from assms(3) obtain x g' where g: "g = x # g'"
    by (cases g) auto
  with assms(4) have x: "isword x" "\<not> isspace x"
    by (auto dest: word_not_space)
  have tw: "takeWhile isspace (ws @ g @ post) = ws"
    using assms(2) x by (simp add: takeWhile_append2 list_all_iff g)
  have dw: "dropWhile isspace (ws @ g @ post) = g @ post"
    using assms(2) x by (simp add: dropWhile_append2 list_all_iff g)
  have "takeWhile isword (g @ post) \<noteq> []"
    using x by (simp add: g)
  then show ?thesis
    using assms(1) by (simp add: match_rated_def tw dw Let_def)
qed

lemma re_search_rated_append:
  "match_rated s \<noteq> None \<Longrightarrow> re_search_rated (pre @ s) \<noteq> None"
proof (induction pre)
  case Nil
  then show ?case
    by (cases s) (auto simp: match_rated_def split: option.splits)
next
  case (Cons c pre)
  then show ?case
    by (auto split: option.splits)
qed

lemma re_search_rated_complete:
  assumes "str = pre @ ''Rated'' @ ws @ g @ post" "ws \<noteq> []" "list_all isspace ws"
    "g \<noteq> []" "list_all isword g"
  shows "re_search_rated str \<noteq> None"
  unfolding assms(1)
  by (rule re_search_rated_append) (rule match_rated_complete [OF assms(2-5)])

text \<open>
  Claim C6. The rating is searched in the whole text of the metadata sub-fragment. A
  result of the search is a word token that stands in the text after \<^verbatim>\<open>Rated\<close> and
  whitespace, and in a text that holds such an occurrence the search finds one; without
  a match the rating is the sentinel. \<^verbatim>\<open>Rated M for Mature\<close> gives \<^verbatim>\<open>M\<close>. The rating and
  the date are computed from the sub-fragment independently of each other: whatever the
  date turns out to be, the rating is \<open>extract_rating\<close> of the sub-fragment, and each of
  the two can be found while the other is its sentinel.
\<close>

theorem rating_searched_in_full_text:
  "extract_rating t = (case re_search_rated (get_text [] False t) of
                         Some g \<Rightarrow> g | None \<Rightarrow> ''Rating not found'')
   \<and> (re_search_rated str = Some g \<longrightarrow>
        (\<exists>pre ws post. str = pre @ ''Rated'' @ ws @ g @ post \<and> ws \<noteq> [] \<and> list_all isspace ws
            \<and> g \<noteq> [] \<and> list_all isword g \<and> (post = [] \<or> \<not> isword (hd post))))
   \<and> (ws \<noteq> [] \<and> list_all isspace ws \<and> w \<noteq> [] \<and> list_all isword w \<longrightarrow>
        re_search_rated (pre @ ''Rated'' @ ws @ w @ post) \<noteq> None)
   \<and> (\<exists>rd. extract_release_date t = Inr rd \<and> extract_meta (Some t) = Inr (rd, extract_rating t))
   \<and> extract_rating [''Rated M for Mature''] = ''M''
   \<and> extract_rating [''Action game''] = ''Rating not found''
   \<and> extract_meta (Some [''Rated M for Mature'']) = Inr (''Unknown'', ''M'')
   \<and> extract_meta (Some [''Jan 5, 2020'']) = Inr (''2020-01-05'', ''Rating not found'')"
proof (intro conjI impI)
  show "extract_rating t = (case re_search_rated (get_text [] False t) of
                         Some g \<Rightarrow> g | None \<Rightarrow> ''Rating not found'')"
    by (simp add: extract_rating_def)
  show "\<exists>pre ws post. str = pre @ ''Rated'' @ ws @ g @ post \<and> ws \<noteq> [] \<and> list_all isspace ws
            \<and> g \<noteq> [] \<and> list_all isword g \<and> (post = [] \<or> \<not> isword (hd post))"
    if "re_search_rated str = Some g"
    using that by (rule re_search_rated_sound)
  show "re_search_rated (pre @ ''Rated'' @ ws @ w @ post) \<noteq> None"
    if "ws \<noteq> [] \<and> list_all isspace ws \<and> w \<noteq> [] \<and> list_all isword w"
    using that re_search_rated_complete [of _ pre ws w post] by blast
  show "extract_rating [''Rated M for Mature''] = ''M''"
    by code_simp
  show "extract_rating [''Action game''] = ''Rating not found''"
    by code_simp
  obtain rd where "extract_release_date t = Inr rd"
    using extract_release_date_returns by blast
  then show "\<exists>rd. extract_release_date t = Inr rd
      \<and> extract_meta (Some t) = Inr (rd, extract_rating t)"
    by (simp add: extract_meta_def)
  show "extract_meta (Some [''Rated M for Mature'']) = Inr (''Unknown'', ''M'')"
    by code_simp
  show "extract_meta (Some [''Jan 5, 2020'']) = Inr (''2020-01-05'', ''Rating not found'')"
    by code_simp
qed

theorem rating_searched_in_full_text_witness:
  "re_search_rated ''Rated M for Mature'' = Some ''M''
   \<and> (\<exists>pre ws post. ''Rated M for Mature'' = pre @ ''Rated'' @ ws @ ''M'' @ post
         \<and> list_all isspace ws \<and> ws \<noteq> [])"
proof -
  note inst = rating_searched_in_full_text
    [of _ "''Rated M for Mature''" "''M''" "'' ''" "''M''" "[]" "'' for Mature''"]
  have "'' '' \<noteq> [] \<and> list_all isspace '' '' \<and> ''M'' \<noteq> [] \<and> list_all isword ''M''"
    by (simp add: isspace_def isword_def)
  with inst have "re_search_rated ([] @ ''Rated'' @ '' '' @ ''M'' @ '' for Mature'') \<noteq> None"
    by blast
  moreover have found: "re_search_rated ''Rated M for Mature'' = Some ''M''"
    by code_simp
  with inst have "\<exists>pre ws post. ''Rated M for Mature'' = pre @ ''Rated'' @ ws @ ''M'' @ post
      \<and> ws \<noteq> [] \<and> list_all isspace ws \<and> ''M'' \<noteq> [] \<and> list_all isword ''M''
      \<and> (post = [] \<or> \<not> isword (hd post))"
    by blast
  then have "\<exists>pre ws post. ''Rated M for Mature'' = pre @ ''Rated'' @ ws @ ''M'' @ post
         \<and> list_all isspace ws \<and> ws \<noteq> []"
    by blast
  with found show ?thesis
    by (intro conjI)
qed

section \<open>Properties of the pagination loops\<close>

















section \<open>Properties of the merge\<close>

lemma append_matches_nth:
  "distinct idx \<Longrightarrow> \<forall>i\<in>set idx. i < length rs \<Longrightarrow>
   \<exists>rs'. append_matches idx p r rs = Inr rs' \<and> length rs' = length rs \<and>
     (\<forall>j<length rs. rs' ! j =
        (if j \<in> set idx \<and> p \<notin> set (platforms (rs ! j))
         then (rs ! j)\<lparr>platforms := platforms (rs ! j) @ [p],
                        platform_scores := platform_scores (rs ! j) @ [metascore r]\<rparr>
         else rs ! j))"
proof (induction idx arbitrary: rs)
  case Nil
  then show ?case by simp
next
  case (Cons i idx)
  let ?upd = "\<lambda>e. e\<lparr>platforms := platforms e @ [p],
                       platform_scores := platform_scores e @ [metascore r]\<rparr>"
  let ?rs1 = "if p \<notin> set (platforms (rs ! i)) then rs[i := ?upd (rs ! i)] else rs"
  from Cons.prems have i: "i < length rs" and ni: "i \<notin> set idx" and d: "distinct idx"
    and b: "\<forall>k\<in>set idx. k < length ?rs1"
    by auto
  from Cons.IH [OF d b] obtain rs' where
    run: "append_matches idx p r ?rs1 = Inr rs'" and len: "length rs' = length ?rs1"
    and nth: "\<forall>j<length ?rs1. rs' ! j =
        (if j \<in> set idx \<and> p \<notin> set (platforms (?rs1 ! j)) then ?upd (?rs1 ! j) else ?rs1 ! j)"
    by blast
  have "append_matches (i # idx) p r rs = Inr rs'"
    using run i by (simp split: if_splits)
  moreover have "length rs' = length rs"
    using len by (simp split: if_splits)
  moreover have "\<forall>j<length rs. rs' ! j =
        (if j \<in> set (i # idx) \<and> p \<notin> set (platforms (rs ! j)) then ?upd (rs ! j) else rs ! j)"
  proof (intro allI impI)
    fix j assume j: "j < length rs"
    then have "j < length ?rs1" by (simp split: if_splits)
    with nth have eq: "rs' ! j =
        (if j \<in> set idx \<and> p \<notin> set (platforms (?rs1 ! j)) then ?upd (?rs1 ! j) else ?rs1 ! j)"
      by blast
    show "rs' ! j =
        (if j \<in> set (i # idx) \<and> p \<notin> set (platforms (rs ! j)) then ?upd (rs ! j) else rs ! j)"
    proof (cases "j = i")
      case True
      with ni eq i show ?thesis by (simp split: if_splits)
    next
      case False
      with eq j show ?thesis by (simp split: if_splits)
    qed
  qed
  ultimately show ?case by blast
qed

lemma append_matches_visit:
  "append_matches (filter (\<lambda>i. title (rs ! i) = title r) [0..<length rs]) p r rs
     = Inr (map (visit p r) rs)"
proof -
  let ?idx = "filter (\<lambda>i. title (rs ! i) = title r) [0..<length rs]"
  have "distinct ?idx" and "\<forall>i\<in>set ?idx. i < length rs" by auto
  from append_matches_nth [OF this, of p r] obtain rs' where
    run: "append_matches ?idx p r rs = Inr rs'" and len: "length rs' = length rs"
    and nth: "\<forall>j<length rs. rs' ! j =
        (if j \<in> set ?idx \<and> p \<notin> set (platforms (rs ! j))
         then (rs ! j)\<lparr>platforms := platforms (rs ! j) @ [p],
                        platform_scores := platform_scores (rs ! j) @ [metascore r]\<rparr>
         else rs ! j)"
    by blast
  have "rs' = map (visit p r) rs"
  proof (rule nth_equalityI)
    show "length rs' = length (map (visit p r) rs)" using len by simp
  next
    fix j assume "j < length rs'"
    with len have j: "j < length rs" by simp
    with nth show "rs' ! j = map (visit p r) rs ! j"
      by (simp add: visit_def)
  qed
  with run show ?thesis by simp
qed

lemma merge_rows_visit:
  "''title'' \<in> set (columns main_df) \<Longrightarrow>
   merge_rows p data main_df = Inr (main_df\<lparr>rows := map (\<lambda>e. fold (visit p) data e) (rows main_df)\<rparr>)"
proof (induction data arbitrary: main_df)
  case Nil
  then show ?case by simp
next
  case (Cons r data)
  have "merge_rows p (r # data) main_df = merge_rows p data (main_df\<lparr>rows := map (visit p r) (rows main_df)\<rparr>)"
    using Cons.prems by (simp add: matched_idx_def append_matches_visit)
  also have "\<dots> = Inr (main_df\<lparr>rows := map (\<lambda>e. fold (visit p) (r # data) e) (rows main_df)\<rparr>)"
    using Cons.prems by (subst Cons.IH) (simp_all add: comp_def)
  finally show ?case .
qed

lemma merge_rows_no_title:
  "''title'' \<notin> set (columns main_df) \<Longrightarrow>
   merge_rows p data main_df = (if data = [] then Inr main_df else Inl KeyError)"
  by (cases data) (simp_all add: matched_idx_def)

lemma merge_loop_visit:
  "''title'' \<in> set (columns main_df) \<Longrightarrow>
   merge_loop dfs main_df = Inr (main_df\<lparr>rows := map (visit_all dfs) (rows main_df)\<rparr>)"
proof (induction dfs arbitrary: main_df)
  case Nil
  then show ?case by (simp add: visit_all_def)
next
  case (Cons a dfs)
  obtain p df where a: "a = (p, df)" by (cases a)
  show ?case
    using Cons.prems unfolding a
    by (simp add: merge_rows_visit Cons.IH visit_all_def comp_def)
qed


lemma visit_seen: "p \<in> set (platforms e) \<Longrightarrow> visit p r e = e"
  by (simp add: visit_def)

lemma visit_other: "title e \<noteq> title r \<Longrightarrow> visit p r e = e"
  by (simp add: visit_def)

lemma visit_new:
  "p \<notin> set (platforms e) \<Longrightarrow> title e = title r \<Longrightarrow>
   visit p r e = e\<lparr>platforms := platforms e @ [p],
                   platform_scores := platform_scores e @ [metascore r]\<rparr>"
  by (simp add: visit_def)

lemma fold_visit:
  "fold (visit p) data e =
     (if p \<in> set (platforms e) then e
      else (case first_match (title e) data of
              None \<Rightarrow> e
            | Some r \<Rightarrow> e\<lparr>platforms := platforms e @ [p],
                          platform_scores := platform_scores e @ [metascore r]\<rparr>))"
proof (induction data arbitrary: e)
  case Nil
  then show ?case by (simp add: first_match_def)
next
  case (Cons r data)
  have step: "fold (visit p) (r # data) e = fold (visit p) data (visit p r e)"
    by simp
  consider (seen) "p \<in> set (platforms e)"
    | (other) "p \<notin> set (platforms e)" "title e \<noteq> title r"
    | (new) "p \<notin> set (platforms e)" "title e = title r"
    by blast
  then show ?case
  proof cases
    case seen
    then show ?thesis
      unfolding step by (simp add: visit_seen Cons.IH)
  next
    case other
    then have "first_match (title e) (r # data) = first_match (title e) data"
      by (auto simp: first_match_def)
    with other show ?thesis
      unfolding step by (simp add: visit_other Cons.IH)
  next
    case new
    then have "first_match (title e) (r # data) = Some r"
      by (simp add: first_match_def)
    with new show ?thesis
      unfolding step by (simp add: visit_new Cons.IH)
  qed
qed

lemma title_fold_visit: "title (fold (visit p) data e) = title e"
  by (simp add: fold_visit split: option.splits)

lemma title_visit_all: "title (visit_all dfs e) = title e"
  unfolding visit_all_def
  by (induction dfs arbitrary: e) (auto simp: title_fold_visit)

lemma fields_fold_visit:
  "release_date (fold (visit p) data e) = release_date e \<and> rating (fold (visit p) data e) = rating e
   \<and> description (fold (visit p) data e) = description e \<and> metascore (fold (visit p) data e) = metascore e"
  by (simp add: fold_visit split: option.splits)

lemma fields_visit_all:
  "release_date (visit_all dfs e) = release_date e \<and> rating (visit_all dfs e) = rating e
   \<and> description (visit_all dfs e) = description e \<and> metascore (visit_all dfs e) = metascore e"
  unfolding visit_all_def
  by (induction dfs arbitrary: e) (auto simp: fields_fold_visit)

lemma parallel_fold_visit: "parallel e \<Longrightarrow> parallel (fold (visit p) data e)"
  by (simp add: fold_visit parallel_def split: option.splits)

lemma parallel_visit_all: "parallel e \<Longrightarrow> parallel (visit_all dfs e)"
  unfolding visit_all_def
  by (induction dfs arbitrary: e) (auto simp: parallel_fold_visit)

lemma first_match_Some: "first_match t data = Some r \<Longrightarrow> r \<in> set data \<and> title r = t"
  by (auto simp: first_match_def find_Some_iff)

lemma first_match_None: "first_match t data = None \<longleftrightarrow> (\<forall>r\<in>set data. title r \<noteq> t)"
  by (auto simp: first_match_def find_None_iff)

lemma platforms_fold_visit:
  "p \<in> set (platforms (fold (visit q) data e)) \<longleftrightarrow>
     p \<in> set (platforms e) \<or> (q = p \<and> (\<exists>r\<in>set data. title r = title e))"
proof (cases "first_match (title e) data")
  case None
  then have "\<forall>r\<in>set data. title r \<noteq> title e"
    by (simp add: first_match_None)
  with None show ?thesis by (auto simp: fold_visit)
next
  case (Some r)
  then have "r \<in> set data \<and> title r = title e"
    by (rule first_match_Some)
  with Some show ?thesis by (auto simp: fold_visit)
qed

lemma platforms_visit_all:
  "p \<in> set (platforms (visit_all dfs e)) \<longleftrightarrow>
     p \<in> set (platforms e) \<or> (\<exists>df r. (p, df) \<in> set dfs \<and> r \<in> set (rows df) \<and> title r = title e)"
proof (induction dfs arbitrary: e)
  case Nil
  then show ?case by (simp add: visit_all_def)
next
  case (Cons a dfs)
  obtain q df where a: "a = (q, df)" by (cases a)
  have "visit_all (a # dfs) e = visit_all dfs (fold (visit q) (rows df) e)"
    by (simp add: a visit_all_def)
  then show ?case
    by (auto simp: Cons.IH platforms_fold_visit title_fold_visit a)
qed

lemma pairs_visit_all:
  "distinct (map fst dfs) \<Longrightarrow> parallel e \<Longrightarrow>
   filter (\<lambda>(q, s). q = p) (pairs (visit_all dfs e)) =
     filter (\<lambda>(q, s). q = p) (pairs e) @
     (if p \<in> set (platforms e) then []
      else (case map_of dfs p of
              None \<Rightarrow> []
            | Some df \<Rightarrow> (case first_match (title e) (rows df) of
                            None \<Rightarrow> []
                          | Some r \<Rightarrow> [(p, metascore r)])))"
proof (induction dfs arbitrary: e)
  case Nil
  then show ?case by (simp add: visit_all_def)
next
  case (Cons a dfs)
  obtain q df where a: "a = (q, df)" by (cases a)
  let ?e1 = "fold (visit q) (rows df) e"
  have step: "visit_all (a # dfs) e = visit_all dfs ?e1"
    by (simp add: a visit_all_def)
  have d: "distinct (map fst dfs)" and q: "q \<notin> fst ` set dfs"
    using Cons.prems(1) by (auto simp: a)
  have par: "parallel ?e1"
    using Cons.prems(2) by (rule parallel_fold_visit)
  note IH = Cons.IH [OF d par, unfolded title_fold_visit]
  show ?case
  proof (cases "q = p")
    case True
    then have none: "map_of dfs p = None"
      using q by (simp add: map_of_eq_None_iff)
    have "filter (\<lambda>(q, s). q = p) (pairs ?e1) =
          filter (\<lambda>(q, s). q = p) (pairs e) @
          (if p \<in> set (platforms e) then []
           else (case first_match (title e) (rows df) of None \<Rightarrow> [] | Some r \<Rightarrow> [(p, metascore r)]))"
      using Cons.prems(2) True
      by (simp add: fold_visit pairs_def parallel_def split: option.splits)
    then show ?thesis
      unfolding step IH using True none by (simp add: a)
  next
    case False
    have "filter (\<lambda>(q, s). q = p) (pairs ?e1) = filter (\<lambda>(q, s). q = p) (pairs e)"
      using Cons.prems(2) False
      by (simp add: fold_visit pairs_def parallel_def split: option.splits)
    moreover have "p \<in> set (platforms ?e1) \<longleftrightarrow> p \<in> set (platforms e)"
      using False by (auto simp: platforms_fold_visit)
    ultimately show ?thesis
      unfolding step IH using False by (simp add: a)
  qed
qed

lemma merge_rows_no_title_all:
  "''title'' \<notin> set (columns main_df) \<Longrightarrow>
   merge_loop dfs main_df
     = (if \<forall>(p, df)\<in>set dfs. rows df = [] then Inr main_df else Inl KeyError)"
proof (induction dfs)
  case Nil
  then show ?case by simp
next
  case (Cons a dfs)
  obtain p df where a: "a = (p, df)" by (cases a)
  show ?case
    using Cons unfolding a by (simp add: merge_rows_no_title)
qed

lemma append_matches_parallel:
  "\<forall>e\<in>set rs. parallel e \<Longrightarrow> append_matches idx p r rs = Inr rs' \<Longrightarrow>
   \<forall>e\<in>set rs'. parallel e"
proof (induction idx arbitrary: rs)
  case Nil
  then show ?case by simp
next
  case (Cons i idx)
  let ?e = "(rs ! i)\<lparr>platforms := platforms (rs ! i) @ [p],
                      platform_scores := platform_scores (rs ! i) @ [metascore r]\<rparr>"
  from Cons.prems(2) have i: "i < length rs"
    by (simp split: if_splits)
  with Cons.prems(1) have "parallel ?e"
    by (simp add: parallel_def)
  with Cons.prems(1) have upd: "\<forall>e\<in>set (rs[i := ?e]). parallel e"
    using set_update_subset_insert [of rs i ?e] by auto
  show ?case
  proof (cases "p \<notin> set (platforms (rs ! i))")
    case True
    with Cons.prems(2) i have "append_matches idx p r (rs[i := ?e]) = Inr rs'"
      by simp
    with upd show ?thesis by (rule Cons.IH)
  next
    case False
    with Cons.prems(2) i have "append_matches idx p r rs = Inr rs'"
      by simp
    with Cons.prems(1) show ?thesis by (rule Cons.IH)
  qed
qed

lemma new_row_empty: "platforms (new_row g) = [] \<and> platform_scores (new_row g) = []"
  by (simp add: new_row_def)

lemma new_row_fields:
  "title (new_row g) = title g \<and> release_date (new_row g) = release_date g
   \<and> rating (new_row g) = rating g \<and> description (new_row g) = description g
   \<and> metascore (new_row g) = metascore g"
  by (simp add: new_row_def)

lemma merge_platform_dfs_rows:
  "''title'' \<in> set (columns main_df) \<Longrightarrow>
   merge_platform_dfs main_df dfs =
     Inr \<lparr>columns = columns main_df @ [''platforms'', ''platform_scores''],
          rows = map (\<lambda>g. visit_all dfs (new_row g)) (rows main_df)\<rparr>"
  by (simp add: merge_platform_dfs_def merge_loop_visit add_list_columns_def comp_def)

lemma merge_scraped_rows:
  "all_games_data \<noteq> [] \<Longrightarrow>
   merge_scraped all_games_data platform_data =
     Inr \<lparr>columns = [''title'', ''release_date'', ''rating'', ''description'', ''metascore'',
                     ''platforms'', ''platform_scores''],
          rows = map (\<lambda>g. visit_all (frames platform_data) (new_row g)) all_games_data\<rparr>"
  unfolding merge_scraped_def frames_def [symmetric]
  by (subst merge_platform_dfs_rows) (simp_all add: pd_DataFrame_def)

lemma frames_lookup:
  assumes "distinct (map fst platform_data)" and "(p, data) \<in> set platform_data"
  shows "map_of (frames platform_data) p = Some (pd_DataFrame data)"
proof -
  have "map fst (frames platform_data) = map fst platform_data"
    by (simp add: frames_def case_prod_unfold comp_def)
  with assms(1) have "distinct (map fst (frames platform_data))"
    by simp
  moreover from assms(2) have "(p, pd_DataFrame data) \<in> set (frames platform_data)"
    by (force simp: frames_def)
  ultimately show ?thesis
    by (rule map_of_is_SomeI)
qed

lemma frames_distinct:
  "distinct (map fst platform_data) \<Longrightarrow> distinct (map fst (frames platform_data))"
  by (simp add: frames_def case_prod_unfold comp_def)

lemma frames_rows:
  "(\<exists>df r. (p, df) \<in> set (frames platform_data) \<and> r \<in> set (rows df) \<and> title r = t)
   \<longleftrightarrow> (\<exists>data r. (p, data) \<in> set platform_data \<and> r \<in> set data \<and> title r = t)"
  by (force simp: frames_def pd_DataFrame_def)

text \<open>
  Claim C7. \<open>platform_data\<close> is the dictionary of the platforms' record lists, so its keys
  are distinct. In the merged row of every record of the catalogue, the pairs of
  \<open>platforms\<close> and \<open>platform_scores\<close> that belong to a platform are: none when no record
  of the platform has the title of the row, and otherwise exactly one, with the metascore
  of the first record of the platform that has this title.
\<close>

theorem platform_appended_once_with_first_score:
  assumes "distinct (map fst platform_data)" and "(p, data) \<in> set platform_data"
    and "i < length all_games_data"
  shows "\<exists>out. merge_scraped all_games_data platform_data = Inr out
     \<and> length (rows out) = length all_games_data
     \<and> filter (\<lambda>(q, s). q = p)
          (zip (platforms (rows out ! i)) (platform_scores (rows out ! i)))
        = (case find (\<lambda>r. title r = title (all_games_data ! i)) data of
             None \<Rightarrow> []
           | Some r \<Rightarrow> [(p, metascore r)])"
proof -
  let ?e = "new_row (all_games_data ! i)"
  from assms(3) have ne: "all_games_data \<noteq> []"
    by auto
  have "parallel ?e"
    by (simp add: parallel_def new_row_empty)
  from pairs_visit_all [OF frames_distinct [OF assms(1)] this, of p]
  have "filter (\<lambda>(q, s). q = p) (pairs (visit_all (frames platform_data) ?e))
      = (case first_match (title (all_games_data ! i)) data of
           None \<Rightarrow> []
         | Some r \<Rightarrow> [(p, metascore r)])"
    by (simp add: frames_lookup [OF assms(1,2)] pairs_def new_row_empty new_row_fields
                  pd_DataFrame_def)
  then show ?thesis
    using assms(3)
    by (simp add: merge_scraped_rows [OF ne] pairs_def first_match_def)
qed

theorem platform_appended_once_with_first_score_witness:
  "\<exists>out. merge_scraped [game_x] [(''ps5'', [game_x_85, game_x_90])] = Inr out
     \<and> zip (platforms (rows out ! 0)) (platform_scores (rows out ! 0)) = [(''ps5'', ''85'')]"
proof -
  have "distinct (map fst [(''ps5'', [game_x_85, game_x_90])])"
    and "(''ps5'', [game_x_85, game_x_90]) \<in> set [(''ps5'', [game_x_85, game_x_90])]"
    and "0 < length [game_x]"
    by simp_all
  from platform_appended_once_with_first_score [OF this]
  obtain out where run: "merge_scraped [game_x] [(''ps5'', [game_x_85, game_x_90])] = Inr out"
    and once: "filter (\<lambda>(q, s). q = ''ps5'')
          (zip (platforms (rows out ! 0)) (platform_scores (rows out ! 0))) = [(''ps5'', ''85'')]"
    by (auto simp: game_x_def game_x_85_def game_x_90_def)
  have "merge_scraped [game_x] [(''ps5'', [game_x_85, game_x_90])]
      = Inr \<lparr>columns = [''title'', ''release_date'', ''rating'', ''description'', ''metascore'',
                       ''platforms'', ''platform_scores''],
             rows = [\<lparr>title = ''Game X'', release_date = ''2021-03-04'', rating = ''T'',
                      description = ''An example'', metascore = ''80'',
                      platforms = [''ps5''], platform_scores = [''85'']\<rparr>]\<rparr>"
    by code_simp
  with run have "zip (platforms (rows out ! 0)) (platform_scores (rows out ! 0))
      = [(''ps5'', ''85'')]"
    by auto
  with run once show ?thesis by blast
qed

text \<open>
  Claim C8. Titles are compared with equality of strings and nothing else: a platform is
  in the \<open>platforms\<close> of a merged row exactly when some record of that platform has the
  very title of the row. A title that differs in case, or in any character, is another
  string and gives no entry.
\<close>

theorem platform_listed_iff_equal_title:
  assumes "i < length all_games_data"
  shows "\<exists>out. merge_scraped all_games_data platform_data = Inr out
     \<and> (p \<in> set (platforms (rows out ! i)) \<longleftrightarrow>
          (\<exists>data r. (p, data) \<in> set platform_data \<and> r \<in> set data
              \<and> title r = title (all_games_data ! i)))"
proof -
  from assms have ne: "all_games_data \<noteq> []"
    by auto
  let ?e = "visit_all (frames platform_data) (new_row (all_games_data ! i))"
  have "p \<in> set (platforms ?e) \<longleftrightarrow>
      (\<exists>df r. (p, df) \<in> set (frames platform_data) \<and> r \<in> set (rows df)
          \<and> title r = title (all_games_data ! i))"
    by (simp add: platforms_visit_all new_row_empty new_row_fields)
  also have "\<dots> \<longleftrightarrow>
      (\<exists>data r. (p, data) \<in> set platform_data \<and> r \<in> set data
          \<and> title r = title (all_games_data ! i))"
    by (rule frames_rows)
  finally show ?thesis
    using assms by (simp add: merge_scraped_rows [OF ne])
qed

theorem platform_listed_iff_equal_title_witness:
  "\<exists>out. merge_scraped [game_x, game_x_lower] [(''ps5'', [game_x_85])] = Inr out
     \<and> ''ps5'' \<in> set (platforms (rows out ! 0)) \<and> ''ps5'' \<notin> set (platforms (rows out ! 1))"
proof -
  have i0: "0 < length [game_x, game_x_lower]" and i1: "1 < length [game_x, game_x_lower]"
    by simp_all
  from platform_listed_iff_equal_title [OF i0, of "[(''ps5'', [game_x_85])]" "''ps5''"]
  obtain out where run: "merge_scraped [game_x, game_x_lower] [(''ps5'', [game_x_85])] = Inr out"
    and r0: "''ps5'' \<in> set (platforms (rows out ! 0))"
    by (auto simp: game_x_def game_x_85_def)
  from platform_listed_iff_equal_title [OF i1, of "[(''ps5'', [game_x_85])]" "''ps5''"] run
  have "''ps5'' \<notin> set (platforms (rows out ! 1))"
    by (auto simp: game_x_def game_x_85_def game_x_lower_def)
  with run r0 show ?thesis by blast
qed

text \<open>
  Claim C9. The two lists of a merged row always have the same length. They are empty
  when the columns are added; the innermost loop, the only place that changes them,
  appends one element to each and so keeps the lengths equal in every row; in the frame
  that the merge returns they are equal in every row (the merge fails only with a
  \<^verbatim>\<open>KeyError\<close> for a main frame without title column). Merging platform frames that
  hold no record returns the main frame with both lists empty in every row.
\<close>

theorem platform_lists_stay_parallel:
  "(\<forall>e\<in>set (rows (add_list_columns main_df)). platforms e = [] \<and> platform_scores e = [])
   \<and> ((\<forall>e\<in>set rs. length (platforms e) = length (platform_scores e)) \<longrightarrow>
        (case append_matches idx platform platform_row rs of
           Inl err \<Rightarrow> True
         | Inr rs' \<Rightarrow> \<forall>e\<in>set rs'. length (platforms e) = length (platform_scores e)))
   \<and> (case merge_platform_dfs main_df platform_dfs of
         Inl err \<Rightarrow> err = KeyError \<and> ''title'' \<notin> set (columns main_df)
       | Inr out \<Rightarrow> \<forall>e\<in>set (rows out). length (platforms e) = length (platform_scores e))
   \<and> ((\<forall>(p, df)\<in>set platform_dfs. rows df = []) \<longrightarrow>
        (\<exists>out. merge_platform_dfs main_df platform_dfs = Inr out
           \<and> length (rows out) = length (rows main_df)
           \<and> (\<forall>e\<in>set (rows out). platforms e = [] \<and> platform_scores e = [])))"
proof (intro conjI)
  show "\<forall>e\<in>set (rows (add_list_columns main_df)). platforms e = [] \<and> platform_scores e = []"
    by (simp add: add_list_columns_def new_row_empty)
  show "(\<forall>e\<in>set rs. length (platforms e) = length (platform_scores e)) \<longrightarrow>
        (case append_matches idx platform platform_row rs of
           Inl err \<Rightarrow> True
         | Inr rs' \<Rightarrow> \<forall>e\<in>set rs'. length (platforms e) = length (platform_scores e))"
    using append_matches_parallel [of rs idx platform platform_row]
    by (auto simp: parallel_def split: sum.splits)
  show "case merge_platform_dfs main_df platform_dfs of
         Inl err \<Rightarrow> err = KeyError \<and> ''title'' \<notin> set (columns main_df)
       | Inr out \<Rightarrow> \<forall>e\<in>set (rows out). length (platforms e) = length (platform_scores e)"
  proof (cases "''title'' \<in> set (columns main_df)")
    case True
    have "parallel (visit_all platform_dfs (new_row g))" for g
      by (rule parallel_visit_all) (simp add: parallel_def new_row_empty)
    then show ?thesis
      by (auto simp: merge_platform_dfs_rows [OF True] parallel_def)
  next
    case False
    then have "''title'' \<notin> set (columns (add_list_columns main_df))"
      by (simp add: add_list_columns_def)
    then show ?thesis
      using False
      by (simp add: merge_platform_dfs_def merge_rows_no_title_all add_list_columns_def
                    new_row_empty)
  qed
  show "(\<forall>(p, df)\<in>set platform_dfs. rows df = []) \<longrightarrow>
        (\<exists>out. merge_platform_dfs main_df platform_dfs = Inr out
           \<and> length (rows out) = length (rows main_df)
           \<and> (\<forall>e\<in>set (rows out). platforms e = [] \<and> platform_scores e = []))"
  proof
    assume empty: "\<forall>(p, df)\<in>set platform_dfs. rows df = []"
    have same: "visit_all platform_dfs e = e" for e
      using empty unfolding visit_all_def
      by (induction platform_dfs arbitrary: e) auto
    show "\<exists>out. merge_platform_dfs main_df platform_dfs = Inr out
           \<and> length (rows out) = length (rows main_df)
           \<and> (\<forall>e\<in>set (rows out). platforms e = [] \<and> platform_scores e = [])"
    proof (cases "''title'' \<in> set (columns main_df)")
      case True
      show ?thesis
        by (simp add: merge_platform_dfs_rows [OF True] same new_row_empty)
    next
      case False
      then have "''title'' \<notin> set (columns (add_list_columns main_df))"
        by (simp add: add_list_columns_def)
      then show ?thesis
        using empty
        by (simp add: merge_platform_dfs_def merge_rows_no_title_all add_list_columns_def
                      new_row_empty)
    qed
  qed
qed

theorem platform_lists_stay_parallel_witness:
  "(\<exists>rs'. append_matches [0] ''ps5'' game_x_85 [new_row game_x] = Inr rs'
         \<and> map (\<lambda>e. length (platforms e)) rs' = map (\<lambda>e. length (platform_scores e)) rs'
         \<and> map platforms rs' = [[''ps5'']] \<and> map platform_scores rs' = [[''85'']])
   \<and> (\<exists>out. merge_platform_dfs (pd_DataFrame [game_x]) [(''ps5'', pd_DataFrame [])] = Inr out
         \<and> map platforms (rows out) = [[]] \<and> map platform_scores (rows out) = [[]])"
proof -
  note inst = platform_lists_stay_parallel
    [of "pd_DataFrame [game_x]" "[new_row game_x]" "[0]" "''ps5''" game_x_85
        "[(''ps5'', pd_DataFrame [])]"]
  have start: "\<forall>e\<in>set [new_row game_x]. length (platforms e) = length (platform_scores e)"
    by (simp add: new_row_def)
  have run: "append_matches [0] ''ps5'' game_x_85 [new_row game_x]
      = Inr [(new_row game_x)\<lparr>platforms := [''ps5''], platform_scores := [''85'']\<rparr>]"
    by (simp add: new_row_def game_x_85_def)
  from inst start have "case append_matches [0] ''ps5'' game_x_85 [new_row game_x] of
      Inl err \<Rightarrow> True
    | Inr rs' \<Rightarrow> \<forall>e\<in>set rs'. length (platforms e) = length (platform_scores e)"
    by blast
  with run have step: "\<exists>rs'. append_matches [0] ''ps5'' game_x_85 [new_row game_x] = Inr rs'
         \<and> map (\<lambda>e. length (platforms e)) rs' = map (\<lambda>e. length (platform_scores e)) rs'
         \<and> map platforms rs' = [[''ps5'']] \<and> map platform_scores rs' = [[''85'']]"
    by simp
  have empty: "\<forall>(p, df)\<in>set [(''ps5'', pd_DataFrame [])]. rows df = []"
    by (simp add: pd_DataFrame_def)
  with inst obtain out where
    m: "merge_platform_dfs (pd_DataFrame [game_x]) [(''ps5'', pd_DataFrame [])] = Inr out"
    and len: "length (rows out) = length (rows (pd_DataFrame [game_x]))"
    and emp: "\<forall>e\<in>set (rows out). platforms e = [] \<and> platform_scores e = []"
    by blast
  from len obtain e where out: "rows out = [e]"
    by (cases "rows out") (simp_all add: pd_DataFrame_def)
  with emp have "map platforms (rows out) = [[]] \<and> map platform_scores (rows out) = [[]]"
    by simp
  with m have merged: "\<exists>out.
      merge_platform_dfs (pd_DataFrame [game_x]) [(''ps5'', pd_DataFrame [])] = Inr out
      \<and> map platforms (rows out) = [[]] \<and> map platform_scores (rows out) = [[]]"
    by (intro exI [of _ out]) simp
  show ?thesis
    by (intro conjI) (rule step merged)+
qed

lemma merge_scraped_keeps_rows:
  assumes "all_games_data \<noteq> []"
  shows "\<exists>out. merge_scraped all_games_data platform_data = Inr out
     \<and> length (rows out) = length all_games_data
     \<and> (\<forall>i<length all_games_data.
          title (rows out ! i) = title (all_games_data ! i)
          \<and> release_date (rows out ! i) = release_date (all_games_data ! i)
          \<and> rating (rows out ! i) = rating (all_games_data ! i)
          \<and> description (rows out ! i) = description (all_games_data ! i)
          \<and> metascore (rows out ! i) = metascore (all_games_data ! i))"
  by (simp add: merge_scraped_rows [OF assms] title_visit_all fields_visit_all new_row_fields)

text \<open>
  Claim C10. For a catalogue with at least one record the merge returns one row per record
  of the catalogue, in the same order and with the five scraped fields unchanged
  (\<open>merge_scraped_keeps_rows\<close>), and the records of a platform whose title is the title of
  no row leave no trace (by the theorem of claim C8). For the empty catalogue the claim
  fails: the frame of an empty list has no title column, so the first record of any
  platform makes the merge raise \<^verbatim>\<open>KeyError\<close> instead of returning the empty frame with the
  record dropped.
\<close>

theorem merge_of_empty_catalogue_raises:
  "merge_scraped [] [(''ps5'', [game_x_85])] = Inl KeyError"
  by code_simp

end
